theory Spec2Isabelle
  imports Complex_Main "HOL-Library.Word"
begin

unbundle bit_operations_syntax

section \<open>Protocol constants\<close>

text \<open>
  Go strings are byte sequences; the constants below are ASCII, so a \<open>string\<close>
  literal holds exactly their bytes. \<open>RequestPrefix\<close> and \<open>ResponsePrefix\<close> are
  rune constants, \<open>ByteDelim\<close> is \<open>byte(4)\<close>.
\<close>

type_synonym byte = "8 word"

definition RequestPrefix :: char where "RequestPrefix = CHR ''q''"
definition ResponsePrefix :: char where "ResponsePrefix = CHR ''s''"

definition PacketDataSize :: nat where "PacketDataSize = 1024"
definition PacketAddrSize :: nat where "PacketAddrSize = 4"
definition PacketTotalSize :: nat where "PacketTotalSize = 1032"

definition ByteDelim :: byte where "ByteDelim = 4"
definition StringDelim :: "byte list" where "StringDelim = [ByteDelim]"

definition TypeIdentity :: string where "TypeIdentity = ''IDENTITY''"
definition TypeDigest :: string where "TypeDigest = ''DIGEST''"
definition TypeSyncRequest :: string where "TypeSyncRequest = ''SYNC-REQUEST''"
definition TypeFile :: string where "TypeFile = ''FILE''"

definition StatusOK :: int where "StatusOK = 200"
definition StatusBad :: int where "StatusBad = 400"

definition MessageAccept :: string where "MessageAccept = ''ACCEPT''"
definition MessageDeny :: string where "MessageDeny = ''DENY''"

definition SyncboxServerUsernam :: string where "SyncboxServerUsernam = ''SYNCBOX-SERVER''"

section \<open>Fixed-length byte arrays and slices\<close>

text \<open>
  A Go array \<open>[N]byte\<close> always holds exactly \<open>N\<close> bytes. The type \<open>'n byte_array\<close>
  carries that length in the type (\<open>4 byte_array\<close>, \<open>1024 byte_array\<close>, \<open>1032 byte_array\<close>),
  so no packet with a field of another length exists. A slice \<open>[]byte\<close> is a \<open>byte list\<close>;
  \<open>slice a\<close> is \<open>a[:]\<close>.
\<close>

typedef (overloaded) 'n byte_array = "{xs :: byte list. length xs = LENGTH('n::len)}"
  morphisms slice Abs_byte_array
proof
  show "replicate LENGTH('n) 0 \<in> {xs :: byte list. length xs = LENGTH('n)}"
    by simp
qed

setup_lifting type_definition_byte_array

text \<open>\<open>var a [N]byte\<close>: the zero value.\<close>

lift_definition zero_array :: "'n::len byte_array" is "replicate LENGTH('n) 0"
  by simp

text \<open>
  Go's builtin \<open>copy(dst, src)\<close> on slices copies \<open>min(len(dst), len(src))\<close> bytes to the
  front of \<open>dst\<close> and leaves the rest of \<open>dst\<close> as it was. \<open>copy_bytes\<close> returns the new
  contents of \<open>dst\<close>.
\<close>

definition copy_bytes :: "byte list \<Rightarrow> byte list \<Rightarrow> byte list" where
  "copy_bytes dst src = take (length dst) src @ drop (length src) dst"

text \<open>\<open>copy(a[:], src)\<close> into a whole array.\<close>

lift_definition copy_array :: "'n::len byte_array \<Rightarrow> byte list \<Rightarrow> 'n byte_array"
  is "\<lambda>dst src. copy_bytes dst src"
  by (simp add: copy_bytes_def)

text \<open>
  \<open>copy(a[lo:hi], src)\<close> into a part of an array. The bounds are constants in the source
  and the compiler checks them against the array length; outside them (never the case
  below) the array is returned as it is.
\<close>

lift_definition copy_array_range ::
  "'n::len byte_array \<Rightarrow> nat \<Rightarrow> nat \<Rightarrow> byte list \<Rightarrow> 'n byte_array"
  is "\<lambda>dst lo hi src.
        if lo \<le> hi \<and> hi \<le> length dst
        then take lo dst @ copy_bytes (take (hi - lo) (drop lo dst)) src @ drop hi dst
        else dst"
  by (auto simp add: copy_bytes_def)

text \<open>\<open>a[lo:hi]\<close> read from an array, for constant bounds within the array.\<close>

definition array_range :: "'n::len byte_array \<Rightarrow> nat \<Rightarrow> nat \<Rightarrow> byte list" where
  "array_range a lo hi = take (hi - lo) (drop lo (slice a))"

section \<open>Packets\<close>

text \<open>
  \<^verbatim>\<open>type Packet struct { Size [4]byte; Sequence [4]byte; Data [1024]byte }\<close>
\<close>

record Packet =
  Size :: "4 byte_array"
  Sequence :: "4 byte_array"
  Data :: "1024 byte_array"

text \<open>
  The errors the packet functions can return: the repository's own
  \<open>ErrorExceedsAddrLength\<close>, and the two errors \<open>binary.Read\<close> passes on from
  \<open>io.ReadFull\<close> when the reader runs out of bytes. \<open>PanicSliceBounds\<close> stands for the
  run-time panic of a slice expression whose bounds are out of range.
\<close>

datatype error = ErrorExceedsAddrLength | EOF | ErrUnexpectedEOF | PanicSliceBounds

subsection \<open>The little-endian byte order of \<open>encoding/binary\<close>\<close>

text \<open>
  \<open>binary.LittleEndian.PutUint32\<close> and \<open>binary.LittleEndian.Uint32\<close>, as the standard
  library writes them: shifts and byte casts.
\<close>

definition PutUint32 :: "32 word \<Rightarrow> byte list" where
  "PutUint32 v = [ucast v, ucast (drop_bit 8 v), ucast (drop_bit 16 v), ucast (drop_bit 24 v)]"

definition Uint32 :: "byte list \<Rightarrow> 32 word" where
  "Uint32 b = ucast (b ! 0) OR push_bit 8 (ucast (b ! 1)) OR push_bit 16 (ucast (b ! 2))
     OR push_bit 24 (ucast (b ! 3))"

text \<open>
  \<open>binary.Write(buf, binary.LittleEndian, num)\<close> for a \<open>uint32\<close> appends its four bytes
  to the buffer; writing to a \<open>bytes.Buffer\<close> returns no error. The result is the new
  buffer contents.
\<close>

definition binary_Write :: "byte list \<Rightarrow> 32 word \<Rightarrow> error + byte list" where
  "binary_Write buf num = Inr (buf @ PutUint32 num)"

text \<open>
  \<open>binary.Read(buf, binary.LittleEndian, &num)\<close> for a \<open>uint32\<close> reads four bytes with
  \<open>io.ReadFull\<close>: \<open>EOF\<close> when the reader is empty, \<open>ErrUnexpectedEOF\<close> when it holds
  fewer than four bytes.
\<close>

definition binary_Read :: "byte list \<Rightarrow> error + 32 word" where
  "binary_Read bin =
     (if bin = [] then Inl EOF
      else if length bin < 4 then Inl ErrUnexpectedEOF
      else Inr (Uint32 (take 4 bin)))"

definition intToBinary :: "32 word \<Rightarrow> error + byte list" where
  "intToBinary num =
     (case binary_Write [] num of
        Inl err \<Rightarrow> Inl err
      | Inr buf \<Rightarrow> Inr buf)"

definition binaryToInt :: "byte list \<Rightarrow> error + 32 word" where
  "binaryToInt bin =
     (case binary_Read bin of
        Inl err \<Rightarrow> Inl err
      | Inr num \<Rightarrow> Inr num)"

subsection \<open>Size and Sequence\<close>

text \<open>
  Go's \<open>int\<close> is modelled by \<open>int\<close> (a 64-bit host: every \<open>int\<close> of the program is one of
  HOL's). The conversion \<open>uint32(size)\<close> keeps the low 32 bits: \<open>word_of_int\<close>. The
  conversion \<open>int(num)\<close> of a \<open>uint32\<close> is its unsigned value: \<open>uint\<close>. A method with a
  pointer receiver takes the packet and returns the updated packet, or the error.
\<close>

definition SetSize :: "int \<Rightarrow> Packet \<Rightarrow> error + Packet" where
  "SetSize size' packet =
     (case intToBinary (word_of_int size') of
        Inl err \<Rightarrow> Inl err
      | Inr bytes \<Rightarrow>
          if length bytes > PacketAddrSize then Inl ErrorExceedsAddrLength
          else Inr (packet\<lparr>Size := copy_array (Size packet) bytes\<rparr>))"

definition GetSize :: "Packet \<Rightarrow> error + int" where
  "GetSize packet =
     (case binaryToInt (slice (Size packet)) of
        Inl err \<Rightarrow> Inl err
      | Inr num \<Rightarrow> Inr (uint num))"

definition SetSequence :: "int \<Rightarrow> Packet \<Rightarrow> error + Packet" where
  "SetSequence sequence packet =
     (case intToBinary (word_of_int sequence) of
        Inl err \<Rightarrow> Inl err
      | Inr bytes \<Rightarrow>
          if length bytes > PacketAddrSize then Inl ErrorExceedsAddrLength
          else Inr (packet\<lparr>Sequence := copy_array (Sequence packet) bytes\<rparr>))"

definition GetSequence :: "Packet \<Rightarrow> error + int" where
  "GetSequence packet =
     (case binaryToInt (slice (Sequence packet)) of
        Inl err \<Rightarrow> Inl err
      | Inr num \<Rightarrow> Inr (uint num))"

definition NewPacket :: "int \<Rightarrow> int \<Rightarrow> 1024 byte_array \<Rightarrow> error + Packet" where
  "NewPacket size' sequence data =
     (let packet = \<lparr>Size = zero_array, Sequence = zero_array, Data = data\<rparr> in
      case SetSize size' packet of
        Inl err \<Rightarrow> Inl err
      | Inr packet \<Rightarrow>
          (case SetSequence sequence packet of
             Inl err \<Rightarrow> Inl err
           | Inr packet \<Rightarrow> Inr packet))"

subsection \<open>The wire form\<close>

definition ToBytes :: "Packet \<Rightarrow> 1032 byte_array" where
  "ToBytes packet =
     (let bytes = zero_array;
          bytes = copy_array_range bytes 0 PacketAddrSize (slice (Size packet));
          bytes = copy_array_range bytes PacketAddrSize (2 * PacketAddrSize)
                    (slice (Sequence packet));
          bytes = copy_array_range bytes (2 * PacketAddrSize) PacketTotalSize
                    (slice (Data packet))
      in bytes)"

definition RebornPacket :: "1032 byte_array \<Rightarrow> Packet" where
  "RebornPacket data =
     (let packet = \<lparr>Size = zero_array, Sequence = zero_array, Data = zero_array\<rparr>;
          packet = packet\<lparr>Size := copy_array (Size packet) (array_range data 0 PacketAddrSize)\<rparr>;
          packet = packet\<lparr>Sequence := copy_array (Sequence packet)
                     (array_range data PacketAddrSize (2 * PacketAddrSize))\<rparr>;
          packet = packet\<lparr>Data := copy_array (Data packet)
                     (array_range data (2 * PacketAddrSize) PacketTotalSize)\<rparr>
      in packet)"

section \<open>The stream serializer\<close>

subsection \<open>Slices\<close>

text \<open>
  The slice expression \<open>data[lo:hi]\<close> panics when its bounds are out of range. The model
  checks the upper bound against the length of the slice (Go checks it against the
  capacity, which is not less); every use below stays within the length.
\<close>

definition slice_range :: "byte list \<Rightarrow> nat \<Rightarrow> nat \<Rightarrow> error + byte list" where
  "slice_range data lo hi =
     (if lo \<le> hi \<and> hi \<le> length data then Inr (take (hi - lo) (drop lo data))
      else Inl PanicSliceBounds)"

text \<open>\<open>copy(dst[lo:hi], src)\<close> on a slice: the new contents of \<open>dst\<close>, or the panic.\<close>

definition copy_range :: "byte list \<Rightarrow> nat \<Rightarrow> nat \<Rightarrow> byte list \<Rightarrow> error + byte list" where
  "copy_range dst lo hi src =
     (if lo \<le> hi \<and> hi \<le> length dst
      then Inr (take lo dst @ copy_bytes (take (hi - lo) (drop lo dst)) src @ drop hi dst)
      else Inl PanicSliceBounds)"

subsection \<open>The packet count\<close>

text \<open>
  \<open>float64(n)\<close> for an \<open>int\<close> that is not negative: the nearest number with a 53-bit
  significand, ties to the even significand. The result is a whole number again.
  \<open>bit_length n\<close> is the number of binary digits of \<open>n\<close>.
\<close>

fun bit_length :: "nat \<Rightarrow> nat" where
  "bit_length n = (if n = 0 then 0 else Suc (bit_length (n div 2)))"

declare bit_length.simps [simp del]

definition float64 :: "nat \<Rightarrow> nat" where
  "float64 n =
     (if n < 2 ^ 53 then n
      else let e = bit_length n - 53;
               q = n div 2 ^ e;
               r = n mod 2 ^ e;
               half = 2 ^ (e - 1)
           in (if r < half \<or> (r = half \<and> even q) then q else q + 1) * 2 ^ e)"

text \<open>
  \<open>int(math.Ceil(float64(len(data)) / PacketDataSize))\<close>. Dividing a \<open>float64\<close> by 1024
  only lowers its exponent and \<open>math.Ceil\<close> of it is a whole number below \<open>2 ^ 63\<close>,
  so after the conversion \<open>float64(len(data))\<close> the computation is the one on the reals.
\<close>

definition packet_count :: "nat \<Rightarrow> nat" where
  "packet_count len = nat \<lceil>real (float64 len) / real PacketDataSize\<rceil>"

subsection \<open>Serialize\<close>

text \<open>
  The loop \<open>for sequence := 0; sequence < size; sequence++\<close>, with the packets appended so
  far. \<open>size\<close> and \<open>sequence\<close> are never negative, so they are \<open>nat\<close>; \<open>size - 1\<close> is
  only computed inside the loop, where \<open>size\<close> is positive.
\<close>

function Serialize_loop ::
  "byte list \<Rightarrow> nat \<Rightarrow> nat \<Rightarrow> Packet list \<Rightarrow> error + Packet list" where
  "Serialize_loop data size' sequence packets =
     (if sequence < size' then
        (case (if sequence = size' - 1
               then slice_range data (sequence * PacketDataSize) (length data)
               else slice_range data (sequence * PacketDataSize)
                      ((sequence + 1) * PacketDataSize)) of
           Inl err \<Rightarrow> Inl err
         | Inr chunk \<Rightarrow>
             (let payload = copy_array zero_array chunk in
              case NewPacket (int size') (int sequence) payload of
                Inl err \<Rightarrow> Inl err
              | Inr packet \<Rightarrow> Serialize_loop data size' (sequence + 1) (packets @ [packet])))
      else Inr packets)"
  by pat_completeness auto
termination
  by (relation "measure (\<lambda>(data, size', sequence, packets). size' - sequence)") auto

declare Serialize_loop.simps [simp del]

definition Serialize :: "byte list \<Rightarrow> error + Packet list" where
  "Serialize data = (let size' = packet_count (length data) in Serialize_loop data size' 0 [])"

subsection \<open>Deserialize\<close>

text \<open>
  The loop \<open>for _, packet := range packets\<close> with the buffer and the offset. The Go function
  returns the buffer alone; the model returns it under \<open>Inr\<close>, and \<open>Inl\<close> would be a
  panic of the slice expression \<open>data[offset:offset+PacketDataSize]\<close>.
\<close>

fun Deserialize_loop :: "Packet list \<Rightarrow> byte list \<Rightarrow> nat \<Rightarrow> error + byte list" where
  "Deserialize_loop [] data offset = Inr data"
| "Deserialize_loop (packet # packets) data offset =
     (case copy_range data offset (offset + PacketDataSize) (slice (Data packet)) of
        Inl err \<Rightarrow> Inl err
      | Inr data \<Rightarrow> Deserialize_loop packets data (offset + PacketDataSize))"

definition Deserialize :: "Packet list \<Rightarrow> error + byte list" where
  "Deserialize packets =
     (let packetsCount = length packets;
          dataSize = packetsCount * PacketDataSize;
          data = replicate dataSize 0;
          offset = 0
      in Deserialize_loop packets data offset)"

section \<open>What the specification says, in its own terms\<close>

text \<open>
  The little-endian reading of a byte sequence and the four little-endian bytes of a
  number, by arithmetic; and the zero-padded chunks of a payload.
\<close>

definition le_value :: "byte list \<Rightarrow> nat" where
  "le_value bs = foldr (\<lambda>b v. unat b + 256 * v) bs 0"

definition le_bytes4 :: "nat \<Rightarrow> byte list" where
  "le_bytes4 v = [of_nat (v mod 256), of_nat (v div 256 mod 256),
     of_nat (v div 65536 mod 256), of_nat (v div 16777216 mod 256)]"

definition ceil_div :: "nat \<Rightarrow> nat \<Rightarrow> nat" where
  "ceil_div a b = nat \<lceil>real a / real b\<rceil>"

definition padded_chunk :: "byte list \<Rightarrow> nat \<Rightarrow> byte list" where
  "padded_chunk payload i =
     (let chunk = take 1024 (drop (i * 1024) payload)
      in chunk @ replicate (1024 - length chunk) 0)"

section \<open>Arrays, slices and the byte order\<close>

lemma length_slice [simp]: "length (slice (a :: 'n::len byte_array)) = LENGTH('n)"
  using slice [of a] by simp

lemma slice_zero_array: "slice (zero_array :: 'n::len byte_array) = replicate LENGTH('n) 0"
  by (rule zero_array.rep_eq)

lemma slice_copy_array: "slice (copy_array a src) = copy_bytes (slice a) src"
  by (rule copy_array.rep_eq)

lemma copy_bytes_same_length: "length src = length dst \<Longrightarrow> copy_bytes dst src = src"
  by (simp add: copy_bytes_def)

lemma copy_array_full:
  "length src = LENGTH('n) \<Longrightarrow> slice (copy_array (a :: 'n::len byte_array) src) = src"
  by (simp add: slice_copy_array copy_bytes_same_length)

lemma length_PutUint32: "length (PutUint32 v) = 4"
  by (simp add: PutUint32_def)

lemma Uint32_PutUint32: "Uint32 (PutUint32 v) = v"
  unfolding Uint32_def PutUint32_def
proof (rule bit_word_eqI)
  fix n assume "n < LENGTH(32)"
  then show "bit (ucast ([ucast v, ucast (drop_bit 8 v), ucast (drop_bit 16 v),
        ucast (drop_bit 24 v) :: byte] ! 0) OR
      push_bit 8 (ucast ([ucast v, ucast (drop_bit 8 v), ucast (drop_bit 16 v),
        ucast (drop_bit 24 v) :: byte] ! 1)) OR
      push_bit 16 (ucast ([ucast v, ucast (drop_bit 8 v), ucast (drop_bit 16 v),
        ucast (drop_bit 24 v) :: byte] ! 2)) OR
      push_bit 24 (ucast ([ucast v, ucast (drop_bit 8 v), ucast (drop_bit 16 v),
        ucast (drop_bit 24 v) :: byte] ! 3)) :: 32 word) n = bit v n"
    by (cases "n < 8"; cases "n < 16"; cases "n < 24") (auto simp add: bit_simps)
qed

lemma list4: "length bs = 4 \<Longrightarrow> \<exists>a b c d. bs = [a, b, c, d]"
  by (auto simp add: numeral_eq_Suc length_Suc_conv)

lemma PutUint32_Uint32:
  assumes "length bs = 4"
  shows "PutUint32 (Uint32 bs) = bs"
proof -
  from assms obtain a b c d where bs: "bs = [a, b, c, d]"
    using list4 by blast
  have "ucast (ucast a OR push_bit 8 (ucast b) OR push_bit 16 (ucast c)
          OR push_bit 24 (ucast d) :: 32 word) = a"
    by (rule bit_word_eqI) (auto simp add: bit_simps dest: bit_imp_le_length)
  moreover have "ucast (drop_bit 8 (ucast a OR push_bit 8 (ucast b) OR push_bit 16 (ucast c)
          OR push_bit 24 (ucast d) :: 32 word)) = b"
    by (rule bit_word_eqI) (auto simp add: bit_simps dest: bit_imp_le_length)
  moreover have "ucast (drop_bit 16 (ucast a OR push_bit 8 (ucast b) OR push_bit 16 (ucast c)
          OR push_bit 24 (ucast d) :: 32 word)) = c"
    by (rule bit_word_eqI) (auto simp add: bit_simps dest: bit_imp_le_length)
  moreover have "ucast (drop_bit 24 (ucast a OR push_bit 8 (ucast b) OR push_bit 16 (ucast c)
          OR push_bit 24 (ucast d) :: 32 word)) = d"
    by (rule bit_word_eqI) (auto simp add: bit_simps dest: bit_imp_le_length)
  ultimately show ?thesis
    by (simp add: bs Uint32_def PutUint32_def)
qed

lemma ToBytes_slice: "slice (ToBytes p) = slice (Size p) @ slice (Sequence p) @ slice (Data p)"
  unfolding ToBytes_def Let_def PacketAddrSize_def PacketTotalSize_def
  by (simp add: copy_array_range.rep_eq slice_zero_array copy_bytes_def)



lemma Uint32_sum:
  "Uint32 [a, b, c, d] =
     ucast a + (push_bit 8 (ucast b) + (push_bit 16 (ucast c) + push_bit 24 (ucast d)))"
proof -
  let ?a = "ucast a :: 32 word" and ?b = "push_bit 8 (ucast b) :: 32 word"
  and ?c = "push_bit 16 (ucast c) :: 32 word" and ?d = "push_bit 24 (ucast d) :: 32 word"
  have 1: "?c + ?d = ?c OR ?d"
    by (rule disjunctive_add) (auto simp add: bit_simps dest: bit_imp_le_length)
  have 2: "?b + (?c OR ?d) = ?b OR (?c OR ?d)"
    by (rule disjunctive_add) (auto simp add: bit_simps dest: bit_imp_le_length)
  have 3: "?a + (?b OR (?c OR ?d)) = ?a OR (?b OR (?c OR ?d))"
    by (rule disjunctive_add) (auto simp add: bit_simps dest: bit_imp_le_length)
  show ?thesis
    by (simp add: Uint32_def 1 2 3)
qed

lemma unat_Uint32: "unat (Uint32 [a, b, c, d]) = unat a + 256 * unat b + 65536 * unat c + 16777216 * unat d"
proof -
  have a: "unat a < 256" "unat b < 256" "unat c < 256" "unat d < 256"
    using unsigned_less [of a, where ?'a = nat] unsigned_less [of b, where ?'a = nat] unsigned_less [of c, where ?'a = nat] unsigned_less [of d, where ?'a = nat] by simp_all
  show ?thesis
    using a
    apply (simp add: Uint32_sum unat_word_ariths unsigned_push_bit_eq unsigned_ucast_eq take_bit_eq_mod push_bit_eq_mult)
    done
qed

lemma byte_of_nat_mod: "(of_nat (k mod 256) :: byte) = of_nat k"
  by (simp add: word_eq_iff_unsigned [where ?'a = nat] unsigned_of_nat take_bit_eq_mod)

lemma ucast_drop_bit_byte:
  "(ucast (drop_bit k (w :: 32 word)) :: byte) = of_nat (unat w div 2 ^ k mod 256)"
proof -
  have "unat (drop_bit k w) = unat w div 2 ^ k"
    unfolding unat_drop_bit_eq by (simp only: drop_bit_eq_div)
  then show ?thesis
    by (simp add: word_eq_iff_unsigned [where ?'a = nat] unsigned_ucast_eq unsigned_of_nat
      take_bit_eq_mod)
qed

lemma PutUint32_le: "PutUint32 w = le_bytes4 (unat w)"
  using ucast_drop_bit_byte [of 0 w] ucast_drop_bit_byte [of 8 w]
    ucast_drop_bit_byte [of 16 w] ucast_drop_bit_byte [of 24 w]
  by (simp add: PutUint32_def le_bytes4_def)

lemma Uint32_le: "length bs = 4 \<Longrightarrow> unat (Uint32 bs) = le_value bs"
  using list4 [of bs] by (auto simp add: unat_Uint32 le_value_def)

lemma unat_word_of_int32: "unat (word_of_int n :: 32 word) = nat (n mod 2 ^ 32)"
  by (simp add: unat_eq_nat_uint uint_word_of_int_eq take_bit_eq_mod)

lemma uint_word_of_int32: "uint (word_of_int n :: 32 word) = n mod 2 ^ 32"
  by (simp add: uint_word_of_int_eq take_bit_eq_mod)


section \<open>Packet fields\<close>

lemma slice_eqI: "slice a = slice b \<Longrightarrow> a = b"
  by (simp add: slice_inject)

lemma copy_array_self: "copy_array a (slice a) = a"
  by (rule slice_eqI) (simp add: copy_array_full)

lemma intToBinary_eq: "intToBinary num = Inr (PutUint32 num)"
  by (simp add: intToBinary_def binary_Write_def)

lemma binaryToInt_eq: "length bin = 4 \<Longrightarrow> binaryToInt bin = Inr (Uint32 bin)"
  by (auto simp add: binaryToInt_def binary_Read_def)

lemma SetSize_eq:
  "SetSize n packet = Inr (packet\<lparr>Size := copy_array (Size packet) (PutUint32 (word_of_int n))\<rparr>)"
  by (simp add: SetSize_def intToBinary_eq length_PutUint32 PacketAddrSize_def)

lemma SetSequence_eq:
  "SetSequence n packet =
     Inr (packet\<lparr>Sequence := copy_array (Sequence packet) (PutUint32 (word_of_int n))\<rparr>)"
  by (simp add: SetSequence_def intToBinary_eq length_PutUint32 PacketAddrSize_def)

lemma slice_copy_PutUint32:
  "slice (copy_array (a :: 4 byte_array) (PutUint32 w)) = PutUint32 w"
  by (simp add: copy_array_full length_PutUint32)

lemma NewPacket_eq:
  "NewPacket n k data =
     Inr \<lparr>Size = copy_array zero_array (PutUint32 (word_of_int n)),
          Sequence = copy_array zero_array (PutUint32 (word_of_int k)),
          Data = data\<rparr>"
  by (simp add: NewPacket_def SetSize_eq SetSequence_eq)

lemma GetSize_eq: "GetSize packet = Inr (uint (Uint32 (slice (Size packet))))"
  by (simp add: GetSize_def binaryToInt_eq)

lemma GetSequence_eq: "GetSequence packet = Inr (uint (Uint32 (slice (Sequence packet))))"
  by (simp add: GetSequence_def binaryToInt_eq)

lemma RebornPacket_ToBytes: "RebornPacket (ToBytes packet) = packet"
  by (simp add: RebornPacket_def Let_def array_range_def ToBytes_slice PacketAddrSize_def
      PacketTotalSize_def copy_array_self slice_eqI copy_array_full)

lemma ToBytes_RebornPacket: "ToBytes (RebornPacket data) = data"
proof (rule slice_eqI)
  have "slice (ToBytes (RebornPacket data)) =
      take 4 (slice data) @ take 4 (drop 4 (slice data)) @ take 1024 (drop 8 (slice data))"
    by (simp add: RebornPacket_def Let_def array_range_def ToBytes_slice PacketAddrSize_def
      PacketTotalSize_def copy_array_full)
  also have "\<dots> = take 4 (slice data) @ take 4 (drop 4 (slice data)) @ drop 4 (drop 4 (slice data))"
    by simp
  also have "\<dots> = slice data"
    by (simp only: append_take_drop_id)
  finally show "slice (ToBytes (RebornPacket data)) = slice data" .
qed

lemma replicate4: "replicate 4 x = [x, x, x, x]"
  by (simp add: eval_nat_numeral)


section \<open>The loops of the serializer\<close>


lemma Deserialize_loop_eq:
  "length data = offset + length packets * 1024 \<Longrightarrow>
   Deserialize_loop packets data offset =
     Inr (take offset data @ concat (map (\<lambda>p. slice (Data p)) packets))"
proof (induction packets arbitrary: data offset)
  case Nil
  then show ?case by simp
next
  case (Cons packet packets)
  let ?d = "take offset data @ slice (Data packet) @ drop (offset + 1024) data"
  have step: "copy_range data offset (offset + PacketDataSize) (slice (Data packet)) = Inr ?d"
    using Cons.prems by (simp add: copy_range_def PacketDataSize_def copy_bytes_def)
  have len: "length ?d = (offset + 1024) + length packets * 1024"
    using Cons.prems by simp
  have "take (offset + 1024) ?d = take offset data @ slice (Data packet)"
    using Cons.prems by simp
  with Cons.IH [OF len] step show ?case
    by (simp add: PacketDataSize_def)
qed

lemma Deserialize_eq: "Deserialize packets = Inr (concat (map (\<lambda>p. slice (Data p)) packets))"
  using Deserialize_loop_eq [of "replicate (length packets * 1024) 0" 0 packets]
  by (simp add: Deserialize_def Let_def PacketDataSize_def)

lemma length_concat_blocks: "length (concat (map (\<lambda>p. slice (Data p)) packets)) = length packets * 1024"
  by (induction packets) simp_all


lemma slice_payload:
  "slice (copy_array (zero_array :: 1024 byte_array) chunk) =
     take 1024 chunk @ replicate (1024 - length chunk) 0"
  by (simp add: slice_copy_array slice_zero_array copy_bytes_def)

lemma Serialize_loop_eq:
  assumes "size' = 0 \<or> (size' - 1) * 1024 \<le> length data"
  shows "sequence \<le> size' \<Longrightarrow> \<exists>new. Serialize_loop data size' sequence packets = Inr (packets @ new) \<and>
     length new = size' - sequence \<and>
     map (\<lambda>p. slice (Data p)) new = map (padded_chunk data) [sequence..<size'] \<and>
     map (\<lambda>p. slice (Size p)) new = replicate (size' - sequence) (PutUint32 (word_of_nat size')) \<and>
     map (\<lambda>p. slice (Sequence p)) new = map (\<lambda>i. PutUint32 (word_of_nat i)) [sequence..<size']"
proof (induction "size' - sequence" arbitrary: sequence packets)
  case 0
  then show ?case by (simp add: Serialize_loop.simps)
next
  case (Suc k)
  then have lt: "sequence < size'" by simp
  define chunk where "chunk = (if sequence = size' - 1 then drop (sequence * 1024) data
     else take 1024 (drop (sequence * 1024) data))"
  have sl: "(if sequence = size' - 1
               then slice_range data (sequence * PacketDataSize) (length data)
               else slice_range data (sequence * PacketDataSize)
                      ((sequence + 1) * PacketDataSize)) = Inr chunk"
    using assms lt by (auto simp add: slice_range_def PacketDataSize_def chunk_def)
  define packet where "packet = \<lparr>Size = copy_array zero_array (PutUint32 (word_of_int (int size'))),
          Sequence = copy_array zero_array (PutUint32 (word_of_int (int sequence))),
          Data = copy_array zero_array chunk\<rparr>"
  have unf: "Serialize_loop data size' sequence packets = Serialize_loop data size' (sequence + 1) (packets @ [packet])"
    by (subst Serialize_loop.simps, simp only: lt if_True sl)
      (simp add: NewPacket_eq packet_def)
  have "k = size' - (sequence + 1)" "sequence + 1 \<le> size'" using Suc.hyps(2) by simp_all
  from Suc.hyps(1) [OF this, of "packets @ [packet]"] obtain new where
    new: "Serialize_loop data size' (sequence + 1) (packets @ [packet]) = Inr ((packets @ [packet]) @ new)"
      "length new = size' - (sequence + 1)"
      "map (\<lambda>p. slice (Data p)) new = map (padded_chunk data) [sequence + 1..<size']"
      "map (\<lambda>p. slice (Size p)) new = replicate (size' - (sequence + 1)) (PutUint32 (word_of_nat size'))"
      "map (\<lambda>p. slice (Sequence p)) new = map (\<lambda>i. PutUint32 (word_of_nat i)) [sequence + 1..<size']"
    by blast
  have data: "slice (Data packet) = padded_chunk data sequence"
    by (auto simp add: packet_def slice_payload padded_chunk_def chunk_def min_def)
  have size: "slice (Size packet) = PutUint32 (word_of_nat size')"
    by (simp add: packet_def slice_copy_PutUint32)
  have seq: "slice (Sequence packet) = PutUint32 (word_of_nat sequence)"
    by (simp add: packet_def slice_copy_PutUint32)
  have up: "[sequence..<size'] = sequence # [sequence + 1..<size']"
    using lt by (simp add: upt_conv_Cons)
  have rep: "replicate (size' - sequence) x = x # replicate (size' - (sequence + 1)) x" for x :: "byte list"
    using lt by (metis Suc.hyps(2) \<open>k = size' - (sequence + 1)\<close> replicate_Suc)
  show ?case
    apply (rule exI [of _ "packet # new"])
    using new lt by (simp add: unf data size seq up rep)
qed

lemma ceil_div_1024: "ceil_div a 1024 = (a + 1023) div 1024"
proof -
  have "\<lceil>real a / 1024\<rceil> = int ((a + 1023) div 1024)"
  proof (rule ceiling_unique)
    have "real ((a + 1023) div 1024) * 1024 \<le> real (a + 1023)"
      by (metis of_nat_mult of_nat_le_iff div_times_less_eq_dividend of_nat_numeral)
    moreover have "real a < real ((a + 1023) div 1024) * 1024 + 1"
    proof -
      have "a + 1023 < ((a + 1023) div 1024) * 1024 + 1024"
        using mod_less_divisor [of 1024 "a + 1023"] div_mult_mod_eq [of "a + 1023" 1024]
        by linarith
      then have "a < ((a + 1023) div 1024) * 1024 + 1" by linarith
      then have "real a < real (((a + 1023) div 1024) * 1024 + 1)"
        using of_nat_less_iff by blast
      then show ?thesis by simp
    qed
    ultimately show "real_of_int (int ((a + 1023) div 1024)) - 1 < real a / 1024"
      and "real a / 1024 \<le> real_of_int (int ((a + 1023) div 1024))"
      by (simp_all add: field_simps)
  qed
  then show ?thesis by (simp add: ceil_div_def)
qed

lemma bit_length_double: "0 < n \<Longrightarrow> bit_length (2 * n) = Suc (bit_length n)"
  by (subst bit_length.simps) simp

lemma bit_length_pow: "bit_length (2 ^ k) = Suc k"
proof (induction k)
  case 0
  show ?case by (simp add: bit_length.simps [of "Suc 0"] bit_length.simps [of 0])
next
  case (Suc k)
  then show ?case by (simp add: bit_length_double)
qed

lemma float64_exact: "n \<le> 2 ^ 53 \<Longrightarrow> float64 n = n"
proof (cases "n < 2 ^ 53")
  case True
  then show ?thesis by (simp add: float64_def)
next
  case False
  assume "n \<le> 2 ^ 53"
  with False have n: "n = 2 ^ 53" by simp
  have "bit_length n = 54" unfolding n by (simp only: bit_length_pow)
  then show ?thesis
    by (simp add: float64_def Let_def) (simp add: n)
qed

lemma packet_count_exact: "n \<le> 2 ^ 53 \<Longrightarrow> packet_count n = ceil_div n 1024"
  by (simp add: packet_count_def ceil_div_def float64_exact PacketDataSize_def)

lemma concat_padded_chunks:
  "concat (map (padded_chunk data) [0..<n]) =
     take (n * 1024) data @ replicate (n * 1024 - length data) 0"
proof (induction n)
  case 0
  show ?case by simp
next
  case (Suc n)
  let ?c = "take 1024 (drop (n * 1024) data)"
  have step: "concat (map (padded_chunk data) [0..<Suc n]) =
      (take (n * 1024) data @ replicate (n * 1024 - length data) 0) @
      (?c @ replicate (1024 - length ?c) 0)"
    by (simp add: Suc.IH) (simp add: padded_chunk_def)
  show ?case
  proof (cases "n * 1024 \<le> length data")
    case True
    have "take (n * 1024) data @ ?c = take (n * 1024 + 1024) data"
      by (simp only: take_add)
    then have "take (n * 1024) data @ ?c = take (Suc n * 1024) data"
      by (simp add: add.commute)
    moreover have "1024 - length ?c = Suc n * 1024 - length data"
      using True by (simp add: min_def)
    ultimately show ?thesis
      unfolding step using True by simp
  next
    case False
    then have "replicate (n * 1024 - length data) (0::byte) @ replicate 1024 0 =
        replicate (Suc n * 1024 - length data) 0"
      by (simp add: replicate_add [symmetric] del: replicate_add)
    with False show ?thesis
      unfolding step by simp
  qed
qed

lemma Serialize_eq:
  assumes "packet_count (length data) = 0 \<or> (packet_count (length data) - 1) * 1024 \<le> length data"
  shows "\<exists>packets. Serialize data = Inr packets \<and>
     length packets = packet_count (length data) \<and>
     map (\<lambda>p. slice (Data p)) packets = map (padded_chunk data) [0..<packet_count (length data)] \<and>
     map (\<lambda>p. slice (Size p)) packets =
       replicate (packet_count (length data)) (PutUint32 (word_of_nat (packet_count (length data)))) \<and>
     map (\<lambda>p. slice (Sequence p)) packets =
       map (\<lambda>i. PutUint32 (word_of_nat i)) [0..<packet_count (length data)]"
  using Serialize_loop_eq [OF assms, of 0 "[]"]
  by (simp add: Serialize_def Let_def)


lemma Deserialize_padded:
  assumes "map (\<lambda>p. slice (Data p)) packets = map (padded_chunk data) [0..<n]"
  shows "Deserialize packets = Inr (take (n * 1024) data @ replicate (n * 1024 - length data) 0)"
  by (simp add: Deserialize_eq assms concat_padded_chunks)

lemma ceil_div_bounds:
  "n \<le> ceil_div n 1024 * 1024" "ceil_div n 1024 * 1024 - n \<le> 1023"
proof -
  have "(n + 1023) div 1024 * 1024 + (n + 1023) mod 1024 = n + 1023"
    by (rule div_mult_mod_eq)
  moreover have "(n + 1023) mod 1024 < 1024"
    by simp
  ultimately show "n \<le> ceil_div n 1024 * 1024" "ceil_div n 1024 * 1024 - n \<le> 1023"
    unfolding ceil_div_1024 by linarith+
qed

lemma ceil_div_no_panic: "ceil_div n 1024 = 0 \<or> (ceil_div n 1024 - 1) * 1024 \<le> n"
proof -
  have "ceil_div n 1024 * 1024 - n \<le> 1023"
    by (rule ceil_div_bounds)
  then show ?thesis
    by (cases "ceil_div n 1024") simp_all
qed


lemma uint_word_of_nat32:
  assumes "n < 2 ^ 32"
  shows "uint (word_of_nat n :: 32 word) = int n"
proof -
  have "unat (word_of_nat n :: 32 word) = n"
    using assms by (simp add: unat_of_nat)
  then have "int (unat (word_of_nat n :: 32 word)) = int n"
    by (simp only:)
  then show ?thesis
    by (simp only: of_nat_unat)
qed

lemma GetSize_of_slice: "slice (Size p) = PutUint32 w \<Longrightarrow> GetSize p = Inr (uint w)"
  by (simp add: GetSize_eq Uint32_PutUint32)

lemma GetSequence_of_slice: "slice (Sequence p) = PutUint32 w \<Longrightarrow> GetSequence p = Inr (uint w)"
  by (simp add: GetSequence_eq Uint32_PutUint32)

lemma map_GetSize:
  "map (\<lambda>p. slice (Size p)) packets = replicate n (PutUint32 w) \<Longrightarrow>
   map GetSize packets = replicate n (Inr (uint w))"
proof (induction packets arbitrary: n)
  case Nil
  then show ?case by simp
next
  case (Cons p packets)
  then show ?case by (cases n) (simp_all add: GetSize_of_slice)
qed

lemma map_GetSequence:
  "map (\<lambda>p. slice (Sequence p)) packets = map (\<lambda>i. PutUint32 (f i)) is \<Longrightarrow>
   map GetSequence packets = map (\<lambda>i. Inr (uint (f i))) is"
proof (induction packets arbitrary: "is")
  case Nil
  then show ?case by simp
next
  case (Cons p packets)
  then show ?case by (cases "is") (simp_all add: GetSequence_of_slice)
qed


section \<open>The claims\<close>

subsection \<open>Packets\<close>

text \<open>
  Claim C3. For every packet, rebuilding a packet from its wire form gives the packet
  back, field for field; and the wire form of the packet rebuilt from any 1032-byte
  buffer is that buffer. \<open>RebornPacket\<close> and \<open>ToBytes\<close> are inverse to each other.
\<close>

theorem C3_packet_round_trip:
  "RebornPacket (ToBytes packet) = packet \<and> ToBytes (RebornPacket data) = data"
  by (simp add: RebornPacket_ToBytes ToBytes_RebornPacket)

text \<open>
  Claim C4, at the input where the code departs from it. The claim asks
  \<open>NewPacket\<close> to fail with the address-overflow error for a size above \<open>2 ^ 32 - 1\<close>.
  For the size \<open>2 ^ 32 = 4294967296\<close> the code returns a packet, and the Size field of
  that packet is the four zero bytes: the value is truncated by \<open>uint32(size)\<close> before
  the length check of \<open>SetSize\<close> looks at it.
\<close>

theorem C4_NewPacket_accepts_2_32: "NewPacket 4294967296 0 zero_array = Inr \<lparr>Size = zero_array, Sequence = zero_array, Data = zero_array\<rparr>"
  apply (simp add: NewPacket_eq)
  apply (intro conjI slice_eqI)
  apply (simp_all add: slice_copy_PutUint32 slice_zero_array)
  apply (simp_all add: PutUint32_def replicate4)
  done

text \<open>
  Claim C6. \<open>ToBytes\<close> has no failure path (it is a total function into the 1032-byte
  arrays), and its result is the Size field in bytes 0 to 3, the Sequence field in bytes
  4 to 7 and the Data block in bytes 8 to 1031.
\<close>

theorem C6_ToBytes_layout:
  "slice (ToBytes packet) = slice (Size packet) @ slice (Sequence packet) @ slice (Data packet) \<and>
   length (slice (ToBytes packet)) = 1032 \<and>
   array_range (ToBytes packet) 0 4 = slice (Size packet) \<and>
   array_range (ToBytes packet) 4 8 = slice (Sequence packet) \<and>
   array_range (ToBytes packet) 8 1032 = slice (Data packet)"
  by (simp add: ToBytes_slice array_range_def)


text \<open>
  Claim C9. For every integer \<open>n\<close>, \<open>SetSize n\<close> and \<open>SetSequence n\<close> return no error;
  the field they set holds the four little-endian bytes of \<open>n mod 2 ^ 32\<close>, and the
  other fields are unchanged.
\<close>

theorem C9_set_truncates_to_32_bits:
  "(case SetSize n packet of
      Inl err \<Rightarrow> False
    | Inr packet' \<Rightarrow>
        slice (Size packet') = le_bytes4 (nat (n mod 2 ^ 32)) \<and>
        Sequence packet' = Sequence packet \<and> Data packet' = Data packet) \<and>
   (case SetSequence n packet of
      Inl err \<Rightarrow> False
    | Inr packet' \<Rightarrow>
        slice (Sequence packet') = le_bytes4 (nat (n mod 2 ^ 32)) \<and>
        Size packet' = Size packet \<and> Data packet' = Data packet)"
  by (simp add: SetSize_eq SetSequence_eq slice_copy_PutUint32)
    (simp add: PutUint32_le unat_word_of_int32)


text \<open>
  Claim C10. For every packet, \<open>GetSize\<close> and \<open>GetSequence\<close> return no error, and the
  value they return is the little-endian reading of the four bytes stored in the field.
\<close>

theorem C10_get_never_fails:
  "GetSize packet = Inr (int (le_value (slice (Size packet)))) \<and>
   GetSequence packet = Inr (int (le_value (slice (Sequence packet))))"
  by (simp add: GetSize_eq GetSequence_eq Uint32_le [symmetric])


subsection \<open>The serializer\<close>

text \<open>
  Claim C1. For every payload, \<open>Serialize\<close> succeeds, \<open>Deserialize\<close> of its packets
  succeeds, and the buffer has length \<open>ceil (L / 1024) * 1024\<close>, starts with the \<open>L\<close>
  bytes of the payload and continues with at most 1023 zero bytes. The payloads are
  those of at most \<open>2 ^ 53\<close> bytes, the lengths \<open>float64(len(data))\<close> holds exactly;
  every slice a Go program can hold is among them (a 64-bit Go runtime allocates at
  most \<open>2 ^ 48\<close> bytes).
\<close>

theorem C1_deserialize_serialize:
  assumes "length payload \<le> 2 ^ 53"
  shows "\<exists>packets buffer. Serialize payload = Inr packets \<and> Deserialize packets = Inr buffer \<and>
     length buffer = ceil_div (length payload) 1024 * 1024 \<and>
     take (length payload) buffer = payload \<and>
     drop (length payload) buffer = replicate (length buffer - length payload) 0 \<and>
     length buffer - length payload \<le> 1023"
proof -
  let ?n = "ceil_div (length payload) 1024"
  have pc: "packet_count (length payload) = ?n"
    using assms by (rule packet_count_exact)
  from Serialize_eq [of payload] ceil_div_no_panic [of "length payload"] obtain packets
    where ser: "Serialize payload = Inr packets"
      and blocks: "map (\<lambda>p. slice (Data p)) packets = map (padded_chunk payload) [0..<?n]"
    unfolding pc by blast
  let ?buffer = "payload @ replicate (?n * 1024 - length payload) 0"
  have "Deserialize packets = Inr ?buffer"
    using Deserialize_padded [OF blocks] ceil_div_bounds(1) [of "length payload"] by simp
  moreover have "length ?buffer = ?n * 1024"
    using ceil_div_bounds(1) [of "length payload"] by simp
  moreover have "length ?buffer - length payload \<le> 1023"
    using ceil_div_bounds(2) [of "length payload"] by simp
  ultimately show ?thesis
    using ser by simp
qed

text \<open>The theorem at the payload \<open>[1, 2, 3]\<close>.\<close>

theorem C1_deserialize_serialize_witness:
  "length [1, 2, 3 :: byte] \<le> 2 ^ 53 \<and>
   (\<exists>packets buffer. Serialize [1, 2, 3] = Inr packets \<and> Deserialize packets = Inr buffer \<and>
     length buffer = 1024 \<and> take 3 buffer = [1, 2, 3] \<and> drop 3 buffer = replicate 1021 0)"
proof -
  have "ceil_div (length [1, 2, 3 :: byte]) 1024 * 1024 = 1024"
    by (simp add: ceil_div_1024)
  moreover have "length [1, 2, 3 :: byte] = 3"
    by simp
  ultimately show ?thesis
    using C1_deserialize_serialize [of "[1, 2, 3]"] by (simp only:) force
qed

text \<open>
  Claim C2, amended. For every payload whose packet count \<open>ceil (L / 1024)\<close> is below
  \<open>2 ^ 32\<close> (the empty payload included), \<open>Serialize\<close> returns exactly that many packets;
  read with \<open>GetSequence\<close> their sequence numbers are \<open>0, 1, \<dots>\<close> in list order, read with
  \<open>GetSize\<close> every size is the packet count, and the Data block of packet \<open>i\<close> is chunk
  \<open>i\<close> of the payload, padded with zero bytes to 1024.
\<close>

theorem C2_serialize_chunks:
  assumes "ceil_div (length payload) 1024 < 2 ^ 32"
  shows "\<exists>packets. Serialize payload = Inr packets \<and>
     length packets = ceil_div (length payload) 1024 \<and>
     map GetSequence packets = map (\<lambda>i. Inr (int i)) [0..<length packets] \<and>
     map GetSize packets = replicate (length packets) (Inr (int (length packets))) \<and>
     map (\<lambda>p. slice (Data p)) packets = map (padded_chunk payload) [0..<length packets]"
proof -
  let ?n = "ceil_div (length payload) 1024"
  have "length payload \<le> ?n * 1024" by (rule ceil_div_bounds)
  also have "\<dots> \<le> 2 ^ 32 * 1024" using assms by simp
  finally have "length payload \<le> 2 ^ 53" by simp
  then have pc: "packet_count (length payload) = ?n"
    by (rule packet_count_exact)
  from Serialize_eq [of payload] ceil_div_no_panic [of "length payload"] obtain packets
    where ser: "Serialize payload = Inr packets" and len: "length packets = ?n"
      and blocks: "map (\<lambda>p. slice (Data p)) packets = map (padded_chunk payload) [0..<?n]"
      and sizes: "map (\<lambda>p. slice (Size p)) packets = replicate ?n (PutUint32 (word_of_nat ?n))"
      and seqs: "map (\<lambda>p. slice (Sequence p)) packets = map (\<lambda>i. PutUint32 (word_of_nat i)) [0..<?n]"
    unfolding pc by blast
  have "map GetSize packets = replicate ?n (Inr (int ?n))"
    using map_GetSize [OF sizes] assms by (simp add: uint_word_of_nat32)
  moreover have "map GetSequence packets = map (\<lambda>i. Inr (int i)) [0..<?n]"
    using map_GetSequence [OF seqs] assms by (simp add: uint_word_of_nat32)
  ultimately show ?thesis
    using ser len blocks by simp
qed

text \<open>The theorem at the payload \<open>[1, 2, 3]\<close>.\<close>

theorem C2_serialize_chunks_witness:
  "ceil_div (length [1, 2, 3 :: byte]) 1024 < 2 ^ 32 \<and>
   (\<exists>packets. Serialize [1, 2, 3] = Inr packets \<and>
     length packets = 1 \<and>
     map GetSequence packets = [Inr 0] \<and>
     map GetSize packets = [Inr 1] \<and>
     map (\<lambda>p. slice (Data p)) packets = [[1, 2, 3] @ replicate 1021 0])"
proof -
  have n: "ceil_div (length [1, 2, 3 :: byte]) 1024 = 1"
    by (simp add: ceil_div_1024)
  have "padded_chunk [1, 2, 3] 0 = [1, 2, 3] @ replicate 1021 0"
    by (simp add: padded_chunk_def)
  then show ?thesis
    using C2_serialize_chunks [of "[1, 2, 3]"] unfolding n by force
qed

text \<open>
  Claim C2 as stated, for every payload, fails at a payload of \<open>2 ^ 42\<close> bytes: it makes
  \<open>2 ^ 32\<close> packets, and the Size field of each holds \<open>2 ^ 32 mod 2 ^ 32 = 0\<close>.
\<close>

theorem C2_serialize_chunks_counterexample:
  "\<not> (\<exists>packets. Serialize (replicate (2 ^ 42) 0) = Inr packets \<and>
       length packets = ceil_div (length (replicate (2 ^ 42) (0 :: byte))) 1024 \<and>
       map GetSize packets = replicate (length packets) (Inr (int (length packets))))"
proof -
  define big :: "byte list" where "big = replicate (2 ^ 42) 0"
  have len: "length big = 2 ^ 42" by (simp add: big_def)
  have pc: "packet_count (length big) = 2 ^ 32"
    unfolding len by (simp add: packet_count_exact ceil_div_1024)
  have "(packet_count (length big) - 1) * 1024 \<le> length big"
    unfolding pc unfolding len by simp
  with Serialize_eq [of big] obtain packets
    where ser: "Serialize big = Inr packets" and n: "length packets = 2 ^ 32"
      and sizes: "map (\<lambda>p. slice (Size p)) packets = replicate (2 ^ 32) (PutUint32 (word_of_nat (2 ^ 32)))"
    unfolding pc by blast
  have "map GetSize packets = replicate (2 ^ 32) (Inr (uint (word_of_nat (2 ^ 32) :: 32 word)))"
    by (rule map_GetSize [OF sizes])
  moreover have "uint (word_of_nat (2 ^ 32) :: 32 word) = 0"
    by simp
  ultimately have "map GetSize packets = replicate (2 ^ 32) (Inr 0)"
    by simp
  then have "map GetSize packets \<noteq> replicate (length packets) (Inr (int (length packets)))"
    unfolding n by (simp add: replicate_eq_replicate)
  then show ?thesis
    using ser unfolding big_def by auto
qed


text \<open>
  Claim C7. For every list of packets, whatever their Size and Sequence fields hold,
  \<open>Deserialize\<close> returns the Data blocks concatenated in list order, a buffer of
  \<open>len(packets) * 1024\<close> bytes.
\<close>

theorem C7_deserialize_concatenates:
  "Deserialize packets = Inr (concat (map (\<lambda>packet. slice (Data packet)) packets)) \<and>
   length (concat (map (\<lambda>packet. slice (Data packet)) packets)) = length packets * 1024"
  by (simp add: Deserialize_eq length_concat_blocks)

subsection \<open>Protocol constants\<close>

text \<open>
  Claim C8. The constants have the values of the specification: the prefixes \<open>q\<close>
  (code 113) and \<open>s\<close> (code 115), the delimiter byte 4, the four data type tags, the
  status codes 200 and 400, the messages and the server's user name.
\<close>

theorem C8_protocol_constants:
  "RequestPrefix = CHR ''q'' \<and> of_char RequestPrefix = (113 :: nat) \<and>
   ResponsePrefix = CHR ''s'' \<and> of_char ResponsePrefix = (115 :: nat) \<and>
   ByteDelim = 4 \<and> StringDelim = [4] \<and>
   TypeIdentity = ''IDENTITY'' \<and> TypeDigest = ''DIGEST'' \<and>
   TypeSyncRequest = ''SYNC-REQUEST'' \<and> TypeFile = ''FILE'' \<and>
   StatusOK = 200 \<and> StatusBad = 400 \<and>
   MessageAccept = ''ACCEPT'' \<and> MessageDeny = ''DENY'' \<and>
   SyncboxServerUsernam = ''SYNCBOX-SERVER''"
  by (simp add: RequestPrefix_def ResponsePrefix_def ByteDelim_def StringDelim_def
      TypeIdentity_def TypeDigest_def TypeSyncRequest_def TypeFile_def StatusOK_def
      StatusBad_def MessageAccept_def MessageDeny_def SyncboxServerUsernam_def)

end
